theory Spec2Isabelle
  imports Complex_Main
begin

text \<open>
  A model of the WCAG 2.4.7 focus-visibility checker
  (\<^verbatim>\<open>wcag_focus_visible_checker.py\<close>): the Tab loop that walks the focus order of a
  page, the partition of its records into batches, the classification of each batch by an
  external service, the aggregation of the decoded answers into the report, and the
  life cycle of the browser session. The browser, the service, the operating system and
  \<^verbatim>\<open>json.loads\<close> are outside the program; what they return is a parameter of the
  model. Exceptions are values of \<open>py_error\<close>.

  The repository also holds an older copy of the checker, without the guards around the
  service call and around the per-entry check; the model follows the checker itself, and
  the aggregation loop of the copy is given next to it for comparison.
\<close>

section \<open>Python values as the checker sees them\<close>

text \<open>
  The classifier's answer is decoded by \<^verbatim>\<open>json.loads\<close>; everything the aggregation
  code does afterwards is dynamically typed Python on the decoded value. The decoded
  value is therefore a datatype of its own, and each Python operation the source applies
  to it (\<^verbatim>\<open>in\<close>, \<^verbatim>\<open>[]\<close>, \<^verbatim>\<open>.get\<close>, truth value, iteration by
  \<^verbatim>\<open>list.extend\<close>) is a function that returns the exception Python raises on the
  wrong type.

  A decoded JSON object is a Python dict: an association list whose keys are distinct,
  in insertion order. A Python float is a rational or one of the three special values
  \<^verbatim>\<open>json.loads\<close> accepts. A \<^verbatim>\<open>str\<close> is a list of characters.
\<close>

datatype py_float = Finite rat | PosInf | NegInf | NaN

datatype json =
    JNull
  | JBool bool
  | JInt int
  | JFloat py_float
  | JStr string
  | JArr "json list"
  | JObj "(string \<times> json) list"

datatype py_error =
    TypeError
  | AttributeError
  | KeyError
  | WebDriverException
  | OSError

text \<open>Truth value of a decoded value (\<^verbatim>\<open>if x:\<close>).\<close>

fun truthy :: "json \<Rightarrow> bool" where
  "truthy JNull = False"
| "truthy (JBool b) = b"
| "truthy (JInt i) = (i \<noteq> 0)"
| "truthy (JFloat f) = (f \<noteq> Finite 0)"
| "truthy (JStr s) = (s \<noteq> [])"
| "truthy (JArr xs) = (xs \<noteq> [])"
| "truthy (JObj kvs) = (kvs \<noteq> [])"

text \<open>\<^verbatim>\<open>sub in s\<close> on two strings: \<open>sub\<close> occurs in \<open>s\<close> as a contiguous piece.\<close>

fun str_contains :: "string \<Rightarrow> string \<Rightarrow> bool" where
  "str_contains sub [] = (sub = [])"
| "str_contains sub (c # cs) = (take (length sub) (c # cs) = sub \<or> str_contains sub cs)"

text \<open>
  \<^verbatim>\<open>key in v\<close> for a string \<open>key\<close>: a key test on a dict, a membership test on a
  list, a substring test on a string, and \<^verbatim>\<open>TypeError\<close> (not iterable) on
  \<^verbatim>\<open>None\<close>, booleans and numbers.
\<close>

fun py_in :: "string \<Rightarrow> json \<Rightarrow> py_error + bool" where
  "py_in key (JObj kvs) = Inr (map_of kvs key \<noteq> None)"
| "py_in key (JArr xs) = Inr (JStr key \<in> set xs)"
| "py_in key (JStr s) = Inr (str_contains key s)"
| "py_in key v = Inl TypeError"

text \<open>
  \<^verbatim>\<open>v[key]\<close> for a string \<open>key\<close>: the value on a dict (\<^verbatim>\<open>KeyError\<close> when
  absent), \<^verbatim>\<open>TypeError\<close> on everything else (a list or a string wants an
  integer index, the rest is not subscriptable).
\<close>

fun py_getitem :: "json \<Rightarrow> string \<Rightarrow> py_error + json" where
  "py_getitem (JObj kvs) key = (case map_of kvs key of None \<Rightarrow> Inl KeyError | Some x \<Rightarrow> Inr x)"
| "py_getitem v key = Inl TypeError"

text \<open>\<^verbatim>\<open>v.get(key, default)\<close>: only a dict has the method.\<close>

fun py_get :: "json \<Rightarrow> string \<Rightarrow> json \<Rightarrow> py_error + json" where
  "py_get (JObj kvs) key dflt = Inr (case map_of kvs key of None \<Rightarrow> dflt | Some x \<Rightarrow> x)"
| "py_get v key dflt = Inl AttributeError"

text \<open>
  What \<^verbatim>\<open>list.extend(v)\<close> appends: the items of a list, the keys of a dict, the
  characters of a string; \<^verbatim>\<open>TypeError\<close> on a value that is not iterable.
\<close>

fun py_iter :: "json \<Rightarrow> py_error + json list" where
  "py_iter (JArr xs) = Inr xs"
| "py_iter (JObj kvs) = Inr (map (\<lambda>kv. JStr (fst kv)) kvs)"
| "py_iter (JStr s) = Inr (map (\<lambda>c. JStr [c]) s)"
| "py_iter v = Inl TypeError"

text \<open>\<^verbatim>\<open>len(v)\<close>: strings, lists and dicts have a length; the rest raises.\<close>

fun py_len :: "json \<Rightarrow> py_error + nat" where
  "py_len (JStr s) = Inr (length s)"
| "py_len (JArr xs) = Inr (length xs)"
| "py_len (JObj kvs) = Inr (length kvs)"
| "py_len v = Inl TypeError"

section \<open>Result aggregation (\<^verbatim>\<open>process_focus_results\<close>, second half)\<close>

text \<open>
  The loop over \<^verbatim>\<open>all_analyzed_results\<close>: an entry without the key
  \<^verbatim>\<open>analysis\<close> is reported and skipped (the warning reads
  \<^verbatim>\<open>result.get('tab_index', ...)\<close>, which a non-dict entry does not have); any other
  entry goes to the visible or to the invisible list by the truth value of
  \<^verbatim>\<open>result['analysis'].get('focus_visible', False)\<close>. No exception is caught here.
\<close>

fun categorize :: "json list \<Rightarrow> json list \<Rightarrow> json list \<Rightarrow> py_error + (json list \<times> json list)" where
  "categorize [] visible invisible = Inr (visible, invisible)"
| "categorize (result # rest) visible invisible =
     (case py_in ''analysis'' result of
        Inl e \<Rightarrow> Inl e
      | Inr False \<Rightarrow>
          (case py_get result ''tab_index'' (JStr ''unknown'') of
             Inl e \<Rightarrow> Inl e
           | Inr _ \<Rightarrow> categorize rest visible invisible)
      | Inr True \<Rightarrow>
          (case py_getitem result ''analysis'' of
             Inl e \<Rightarrow> Inl e
           | Inr analysis \<Rightarrow>
               (case py_get analysis ''focus_visible'' (JBool False) of
                  Inl e \<Rightarrow> Inl e
                | Inr v \<Rightarrow>
                    if truthy v then categorize rest (visible @ [result]) invisible
                    else categorize rest visible (invisible @ [result]))))"

text \<open>
  The same loop in the older copy: \<^verbatim>\<open>result['analysis']['focus_visible']\<close> with no
  test before it and no default.
\<close>

fun categorize_copy :: "json list \<Rightarrow> json list \<Rightarrow> json list \<Rightarrow> py_error + (json list \<times> json list)" where
  "categorize_copy [] visible invisible = Inr (visible, invisible)"
| "categorize_copy (result # rest) visible invisible =
     (case py_getitem result ''analysis'' of
        Inl e \<Rightarrow> Inl e
      | Inr analysis \<Rightarrow>
          (case py_getitem analysis ''focus_visible'' of
             Inl e \<Rightarrow> Inl e
           | Inr v \<Rightarrow>
               if truthy v then categorize_copy rest (visible @ [result]) invisible
               else categorize_copy rest visible (invisible @ [result])))"

record final_report =
  url :: string
  total_focusable_elements :: nat
  visible_focus_elements :: nat
  invisible_focus_elements :: nat
  visible_elements :: "json list"
  invisible_elements :: "json list"
  wcag_2_4_7_compliant :: bool

text \<open>
  The report built from the collected results. The total is the length of
  \<^verbatim>\<open>all_analyzed_results\<close>, skipped entries included.
\<close>

definition aggregate :: "json list \<Rightarrow> string \<Rightarrow> py_error + final_report" where
  "aggregate all_analyzed_results u =
     (case categorize all_analyzed_results [] [] of
        Inl e \<Rightarrow> Inl e
      | Inr (visible, invisible) \<Rightarrow>
          Inr \<lparr> url = u,
                total_focusable_elements = length all_analyzed_results,
                visible_focus_elements = length visible,
                invisible_focus_elements = length invisible,
                visible_elements = visible,
                invisible_elements = invisible,
                wcag_2_4_7_compliant = (length invisible = 0) \<rparr>)"

text \<open>The entries the aggregation loop skips: those in which \<^verbatim>\<open>analysis\<close> is not found.\<close>

definition lacks_analysis :: "json \<Rightarrow> bool" where
  "lacks_analysis result = (py_in ''analysis'' result = Inr False)"

section \<open>Batch partitioning\<close>

text \<open>
  \<^verbatim>\<open>range(i, stop, step)\<close> for a positive step, and the slice \<^verbatim>\<open>xs[i:j]\<close> for
  indices that are not negative (Python clamps them to the length). The step of the
  source is the constant 5; \<open>py_range\<close> with step 0, where Python raises, is never
  called.
\<close>

function py_range :: "nat \<Rightarrow> nat \<Rightarrow> nat \<Rightarrow> nat list" where
  "py_range i stop step =
     (if step = 0 \<or> stop \<le> i then [] else i # py_range (i + step) stop step)"
  by pat_completeness auto
termination
  by (relation "measure (\<lambda>(i, stop, step). stop - i)") auto

declare py_range.simps [simp del]

definition py_slice :: "'a list \<Rightarrow> nat \<Rightarrow> nat \<Rightarrow> 'a list" where
  "py_slice xs i j = take (j - i) (drop i xs)"

definition batch_size :: nat where
  "batch_size = 5"

definition batches :: "'a list \<Rightarrow> 'a list list" where
  "batches focus_results =
     map (\<lambda>i. py_slice focus_results i (i + batch_size))
       (py_range 0 (length focus_results) batch_size)"

section \<open>Focus traversal (\<^verbatim>\<open>check_focus_visibility\<close>, the Tab loop)\<close>

text \<open>
  The browser is outside the program. One iteration of the loop asks it, in this order,
  for a screenshot, sends Tab and reads the attributes of \<^verbatim>\<open>document.activeElement\<close>,
  asks for the element's XPath (this call alone is guarded: a failure gives
  \<^verbatim>\<open>Unknown\<close>), and, when the element is new, asks for a second screenshot. What
  the browser answers in the iteration with counter \<open>i\<close> is a \<open>tab_step\<close>; a page is
  the sequence of its steps.
\<close>

record focused =
  tagName :: string
  input_type :: string
  dom_id :: string
  className :: string
  textContent :: string
  role :: string

record tab_step =
  shot_before :: "py_error + string"
  active :: "py_error + focused"
  xpath :: "string option"
  shot_after :: "py_error + string"

record element_info =
  tab_index :: nat
  element_tag :: string
  element_type :: string
  element_id :: string
  element_class :: string
  element_text :: string
  element_role :: string
  element_xpath :: string
  before_tab_screenshot :: string
  after_tab_screenshot :: string

definition max_tabs :: nat where
  "max_tabs = 100"

text \<open>
  The f-string for \<^verbatim>\<open>element_signature\<close>: tag, id, class and XPath, joined by
  underscores.
\<close>

definition element_signature :: "string \<Rightarrow> string \<Rightarrow> string \<Rightarrow> string \<Rightarrow> string" where
  "element_signature tg i c x = tg @ ''_'' @ i @ ''_'' @ c @ ''_'' @ x"

definition resolve_xpath :: "tab_step \<Rightarrow> string" where
  "resolve_xpath st = (case xpath st of None \<Rightarrow> ''Unknown'' | Some p \<Rightarrow> p)"

definition make_info :: "nat \<Rightarrow> focused \<Rightarrow> string \<Rightarrow> string \<Rightarrow> string \<Rightarrow> element_info" where
  "make_info i el x shot0 shot1 =
     \<lparr> tab_index = i,
       element_tag = tagName el,
       element_type = input_type el,
       element_id = dom_id el,
       element_class = className el,
       element_text = take 100 (textContent el),
       element_role = role el,
       element_xpath = x,
       before_tab_screenshot = shot0,
       after_tab_screenshot = shot1 \<rparr>"

function tab_loop ::
  "(nat \<Rightarrow> tab_step) \<Rightarrow> nat \<Rightarrow> string set \<Rightarrow> element_info list \<Rightarrow> py_error + element_info list"
where
  "tab_loop driver i previously_focused_elements focus_results =
     (if i < max_tabs then
        (case shot_before (driver i) of
           Inl e \<Rightarrow> Inl e
         | Inr shot0 \<Rightarrow>
             (case active (driver i) of
                Inl e \<Rightarrow> Inl e
              | Inr el \<Rightarrow>
                  if element_signature (tagName el) (dom_id el) (className el)
                       (resolve_xpath (driver i)) \<in> previously_focused_elements
                  then Inr focus_results
                  else
                    (case shot_after (driver i) of
                       Inl e \<Rightarrow> Inl e
                     | Inr shot1 \<Rightarrow>
                         tab_loop driver (i + 1)
                           (insert (element_signature (tagName el) (dom_id el) (className el)
                                      (resolve_xpath (driver i)))
                              previously_focused_elements)
                           (focus_results @
                              [make_info i el (resolve_xpath (driver i)) shot0 shot1]))))
      else Inr focus_results)"
  by pat_completeness auto
termination
  by (relation "measure (\<lambda>(driver, i, seen, rs). max_tabs - i)") auto

declare tab_loop.simps [simp del]

definition traverse :: "(nat \<Rightarrow> tab_step) \<Rightarrow> py_error + element_info list" where
  "traverse driver = tab_loop driver 0 {} []"

text \<open>
  The signature of the element focused in a step, as the loop computes it, and the
  ElementSignature of the specification: the tuple (tag, id, class list, locator). Equal
  tuples give equal signature strings.
\<close>

definition step_signature :: "focused \<Rightarrow> tab_step \<Rightarrow> string" where
  "step_signature el st =
     element_signature (tagName el) (dom_id el) (className el) (resolve_xpath st)"

definition ElementSignature :: "focused \<Rightarrow> tab_step \<Rightarrow> string \<times> string \<times> string \<times> string" where
  "ElementSignature el st = (tagName el, dom_id el, className el, resolve_xpath st)"

section \<open>Classification of one batch (\<^verbatim>\<open>analyze_focus_batch\<close>)\<close>

text \<open>
  The request to the service either raises or yields the text of the answer. The string
  methods the source applies to the text are written out; \<^verbatim>\<open>json.loads\<close> is a
  parameter \<open>loads\<close> (\<open>None\<close> when it raises).
\<close>

datatype api_outcome = ApiRaises | ApiText string

fun py_find :: "char \<Rightarrow> string \<Rightarrow> int" where
  "py_find c [] = - 1"
| "py_find c (x # xs) =
     (if x = c then 0 else (let r = py_find c xs in if r = - 1 then - 1 else r + 1))"

definition py_rfind :: "char \<Rightarrow> string \<Rightarrow> int" where
  "py_rfind c s =
     (let r = py_find c (rev s) in if r = - 1 then - 1 else int (length s) - 1 - r)"

definition slice_bound :: "int \<Rightarrow> int \<Rightarrow> int" where
  "slice_bound n i = (if i < 0 then max 0 (n + i) else min i n)"

definition py_str_slice :: "string \<Rightarrow> int \<Rightarrow> int \<Rightarrow> string" where
  "py_str_slice s i j =
     (let n = int (length s); a = slice_bound n i; b = slice_bound n j
      in take (nat (b - a)) (drop (nat a) s))"

text \<open>The first \<^verbatim>\<open>replace\<close>: every apostrophe becomes a double quote.\<close>

definition replace_quotes :: "string \<Rightarrow> string" where
  "replace_quotes s = map (\<lambda>c. if c = CHR 0x27 then CHR 0x22 else c) s"

text \<open>
  The second \<^verbatim>\<open>replace\<close>: a backslash followed by the letter \<open>n\<close> becomes a
  line feed.
\<close>

fun replace_newlines :: "string \<Rightarrow> string" where
  "replace_newlines (a # b # cs) =
     (if a = CHR 0x5C \<and> b = CHR ''n'' then CHR 0x0A # replace_newlines cs
      else a # replace_newlines (b # cs))"
| "replace_newlines cs = cs"

definition is_space :: "char \<Rightarrow> bool" where
  "is_space c = (c = CHR 0x20 \<or> c \<in> set [CHR 0x09, CHR 0x0A, CHR 0x0B, CHR 0x0C, CHR 0x0D,
                                            CHR 0x1C, CHR 0x1D, CHR 0x1E, CHR 0x1F])"

definition py_strip :: "string \<Rightarrow> string" where
  "py_strip s = rev (dropWhile is_space (rev (dropWhile is_space s)))"

text \<open>The text handed to \<^verbatim>\<open>json.loads\<close>, when a brace is found.\<close>

definition extract_json :: "string \<Rightarrow> string option" where
  "extract_json response_text =
     (let start_idx = py_find CHR ''{'' response_text;
          end_idx = py_rfind CHR ''}'' response_text + 1
      in if start_idx \<noteq> - 1 \<and> end_idx \<noteq> - 1
         then Some (py_strip (replace_newlines (replace_quotes
                      (py_str_slice response_text start_idx end_idx))))
         else None)"

text \<open>
  The value returned: \<^verbatim>\<open>result['elements']\<close>, or \<^verbatim>\<open>None\<close> (here \<open>JNull\<close>,
  which is what a decoded \<^verbatim>\<open>null\<close> is as well) on every failure: both
  \<^verbatim>\<open>try\<close> blocks catch \<^verbatim>\<open>Exception\<close>, so the exceptions of \<^verbatim>\<open>in\<close> and
  \<^verbatim>\<open>[]\<close> on a decoded value that is not a dict end in \<^verbatim>\<open>return None\<close> too,
  and so does the exception of \<^verbatim>\<open>len(result['elements'])\<close>, which the message
  printed before the \<^verbatim>\<open>return\<close> evaluates, on a number, a boolean or
  \<^verbatim>\<open>null\<close>.
\<close>

definition analyze_focus_batch :: "(string \<Rightarrow> json option) \<Rightarrow> api_outcome \<Rightarrow> json" where
  "analyze_focus_batch loads outcome =
     (case outcome of
        ApiRaises \<Rightarrow> JNull
      | ApiText response_text \<Rightarrow>
          (case extract_json response_text of
             None \<Rightarrow> JNull
           | Some json_str \<Rightarrow>
               (case loads json_str of
                  None \<Rightarrow> JNull
                | Some result \<Rightarrow>
                    (case py_in ''elements'' result of
                       Inl e \<Rightarrow> JNull
                     | Inr False \<Rightarrow> JNull
                     | Inr True \<Rightarrow>
                         (case py_getitem result ''elements'' of
                            Inl e \<Rightarrow> JNull
                          | Inr elements \<Rightarrow>
                              (case py_len elements of
                                 Inl e \<Rightarrow> JNull
                               | Inr n \<Rightarrow> elements))))))"

section \<open>The batch loop and the report (\<^verbatim>\<open>process_focus_results\<close>)\<close>

text \<open>
  What one batch adds to \<^verbatim>\<open>all_analyzed_results\<close>: nothing when the returned
  value is falsy, nothing when \<^verbatim>\<open>extend\<close> raises (the loop body catches
  \<^verbatim>\<open>Exception\<close> and goes on), the iterated items otherwise.
\<close>

definition batch_contribution :: "(string \<Rightarrow> json option) \<Rightarrow> api_outcome \<Rightarrow> json list" where
  "batch_contribution loads outcome =
     (let analyzed_batch = analyze_focus_batch loads outcome
      in if truthy analyzed_batch
         then (case py_iter analyzed_batch of Inl e \<Rightarrow> [] | Inr items \<Rightarrow> items)
         else [])"

text \<open>
  The warnings the batch loop prints, with the batch number as printed
  (\<^verbatim>\<open>batch_idx + 1\<close>): the batch had no result and is skipped, or the loop body raised
  and the batch is skipped.
\<close>

datatype warning = NoResultSkipped nat | ErrorSkipped nat

definition batch_warnings :: "(string \<Rightarrow> json option) \<Rightarrow> nat \<Rightarrow> api_outcome \<Rightarrow> warning list" where
  "batch_warnings loads batch_idx outcome =
     (let analyzed_batch = analyze_focus_batch loads outcome
      in if truthy analyzed_batch
         then (case py_iter analyzed_batch of
                 Inl e \<Rightarrow> [ErrorSkipped (batch_idx + 1)]
               | Inr items \<Rightarrow> [])
         else [NoResultSkipped (batch_idx + 1)])"

text \<open>
  The service is called once per batch, in order; \<open>service batch_idx batch\<close> is what
  the call for that batch does. (The initial screenshot is handed down to
  \<^verbatim>\<open>analyze_focus_batch\<close>, which does not use it; it is left out.) The loop returns
  the collected results and the warnings it printed.
\<close>

fun analyze_batches ::
  "(string \<Rightarrow> json option) \<Rightarrow> (nat \<Rightarrow> 'a list \<Rightarrow> api_outcome) \<Rightarrow> (nat \<times> 'a list) list
     \<Rightarrow> json list \<Rightarrow> warning list \<Rightarrow> json list \<times> warning list"
where
  "analyze_batches loads service [] all_analyzed_results printed =
     (all_analyzed_results, printed)"
| "analyze_batches loads service ((batch_idx, batch) # rest) all_analyzed_results printed =
     (let analyzed_batch = analyze_focus_batch loads (service batch_idx batch)
      in if truthy analyzed_batch
         then (case py_iter analyzed_batch of
                 Inl e \<Rightarrow>
                   analyze_batches loads service rest all_analyzed_results
                     (printed @ [ErrorSkipped (batch_idx + 1)])
               | Inr items \<Rightarrow>
                   analyze_batches loads service rest (all_analyzed_results @ items) printed)
         else analyze_batches loads service rest all_analyzed_results
                (printed @ [NoResultSkipped (batch_idx + 1)]))"

definition process_focus_results ::
  "(string \<Rightarrow> json option) \<Rightarrow> (nat \<Rightarrow> 'a list \<Rightarrow> api_outcome) \<Rightarrow> 'a list \<Rightarrow> string
     \<Rightarrow> py_error + final_report"
where
  "process_focus_results loads service focus_results u =
     aggregate
       (fst (analyze_batches loads service (List.enumerate 0 (batches focus_results)) [] [])) u"


section \<open>The browser session (\<^verbatim>\<open>setup_driver\<close>, \<^verbatim>\<open>cleanup_temp_dir\<close>, \<^verbatim>\<open>check_focus_visibility\<close>)\<close>

text \<open>
  The resources a run holds are a running browser and temporary directories; the world
  is passed through the run. What the operating system, the browser and the service do
  is the environment of the run.
\<close>

record world =
  browser_running :: bool
  temp_dirs :: "string set"

record environment =
  mkdtemp :: "py_error + string"
  chrome_start :: "py_error option"
  page_load :: "py_error + string"
  tab_steps :: "nat \<Rightarrow> tab_step"
  json_loads :: "string \<Rightarrow> json option"
  claude :: "nat \<Rightarrow> element_info list \<Rightarrow> api_outcome"
  quit_raises :: "py_error option"
  rmtree_removes :: bool

text \<open>
  \<^verbatim>\<open>setup_driver\<close>: the directory is made first, the browser is started after it.
\<close>

definition setup_driver :: "environment \<Rightarrow> world \<Rightarrow> (py_error + string) \<times> world" where
  "setup_driver env w =
     (case mkdtemp env of
        Inl e \<Rightarrow> (Inl e, w)
      | Inr temp_dir \<Rightarrow>
          (case chrome_start env of
             Some e \<Rightarrow> (Inl e, w\<lparr>temp_dirs := insert temp_dir (temp_dirs w)\<rparr>)
           | None \<Rightarrow>
               (Inr temp_dir,
                w\<lparr>temp_dirs := insert temp_dir (temp_dirs w), browser_running := True\<rparr>)))"

text \<open>
  \<^verbatim>\<open>cleanup_temp_dir\<close>: \<^verbatim>\<open>shutil.rmtree(temp_dir, ignore_errors=True)\<close> when the
  directory exists; it never raises.
\<close>

definition cleanup_temp_dir :: "environment \<Rightarrow> string \<Rightarrow> world \<Rightarrow> world" where
  "cleanup_temp_dir env temp_dir w =
     (if temp_dir \<noteq> [] \<and> temp_dir \<in> temp_dirs w \<and> rmtree_removes env
      then w\<lparr>temp_dirs := temp_dirs w - {temp_dir}\<rparr> else w)"

text \<open>
  \<^verbatim>\<open>check_focus_visibility\<close>: the set-up is outside the \<^verbatim>\<open>try ... finally\<close>; its
  handler prints and re-raises. The body loads the page, runs the Tab loop and processes
  the results; the \<^verbatim>\<open>finally\<close> block calls \<^verbatim>\<open>driver.quit()\<close> and then
  \<^verbatim>\<open>cleanup_temp_dir(temp_dir)\<close>.
\<close>

definition check_focus_visibility ::
  "environment \<Rightarrow> string \<Rightarrow> world \<Rightarrow> (py_error + final_report) \<times> world"
where
  "check_focus_visibility env u w =
     (case setup_driver env w of
        (Inl e, w1) \<Rightarrow> (Inl e, w1)
      | (Inr temp_dir, w1) \<Rightarrow>
          (let body =
                 (case page_load env of
                    Inl e \<Rightarrow> Inl e
                  | Inr initial_screenshot \<Rightarrow>
                      (case traverse (tab_steps env) of
                         Inl e \<Rightarrow> Inl e
                       | Inr focus_results \<Rightarrow>
                           process_focus_results (json_loads env) (claude env) focus_results u))
           in (case quit_raises env of
                 Some e \<Rightarrow> (Inl e, w1)
               | None \<Rightarrow> (body, cleanup_temp_dir env temp_dir (w1\<lparr>browser_running := False\<rparr>)))))"

section \<open>Failed calls and classifiable entries\<close>

text \<open>
  A call fails when the request raises or the answer is not parseable: no opening brace
  is found, or \<^verbatim>\<open>json.loads\<close> raises on the extracted text.
\<close>

definition unparseable :: "(string \<Rightarrow> json option) \<Rightarrow> string \<Rightarrow> bool" where
  "unparseable loads response_text =
     (case extract_json response_text of None \<Rightarrow> True | Some json_str \<Rightarrow> loads json_str = None)"

definition call_fails :: "(string \<Rightarrow> json option) \<Rightarrow> api_outcome \<Rightarrow> bool" where
  "call_fails loads outcome =
     (case outcome of ApiRaises \<Rightarrow> True | ApiText response_text \<Rightarrow> unparseable loads response_text)"

text \<open>
  The entries the aggregation loop gets through without an exception: a dict in which
  \<^verbatim>\<open>analysis\<close> is absent or is itself a dict. An entry is judged visible when its
  \<^verbatim>\<open>analysis\<close> is a dict whose \<^verbatim>\<open>focus_visible\<close> is present and truthy, and
  judged invisible when its \<^verbatim>\<open>analysis\<close> is a dict whose
  \<^verbatim>\<open>focus_visible\<close> is absent or falsy.
\<close>

fun classifiable :: "json \<Rightarrow> bool" where
  "classifiable (JObj kvs) =
     (case map_of kvs ''analysis'' of
        None \<Rightarrow> True
      | Some (JObj a) \<Rightarrow> True
      | Some _ \<Rightarrow> False)"
| "classifiable _ = False"

fun judged_visible :: "json \<Rightarrow> bool" where
  "judged_visible (JObj kvs) =
     (case map_of kvs ''analysis'' of
        Some (JObj a) \<Rightarrow> (case map_of a ''focus_visible'' of None \<Rightarrow> False | Some v \<Rightarrow> truthy v)
      | _ \<Rightarrow> False)"
| "judged_visible _ = False"

fun judged_invisible :: "json \<Rightarrow> bool" where
  "judged_invisible (JObj kvs) =
     (case map_of kvs ''analysis'' of
        Some (JObj a) \<Rightarrow> (case map_of a ''focus_visible'' of None \<Rightarrow> True | Some v \<Rightarrow> \<not> truthy v)
      | _ \<Rightarrow> False)"
| "judged_invisible _ = False"

section \<open>Example answers of the service\<close>

text \<open>
  Three answers of the service, written with apostrophes (which the source turns into
  double quotes before decoding), and \<^verbatim>\<open>json.loads\<close> on them: \<open>example_loads\<close>
  maps the normalised text of each answer to its decoding; no other text is decoded in
  the examples. The first answer holds one complete entry and one entry without
  \<^verbatim>\<open>analysis\<close>, the second five entries judged visible, the third a list
  whose only entry is the number 5.
\<close>

definition visible_entry :: "int \<Rightarrow> json" where
  "visible_entry i =
     JObj [(''tab_index'', JInt i), (''analysis'', JObj [(''focus_visible'', JBool True)])]"

definition two_results_raw :: string where
  "two_results_raw =
     ''{'elements': [{'tab_index': 0, 'analysis': {'focus_visible': true}}, {'tab_index': 1}]}''"

definition two_results_text :: string where
  "two_results_text = ''Here is the analysis: '' @ two_results_raw"

definition five_results_text :: string where
  "five_results_text =
     ''{'elements': [{'tab_index': 0, 'analysis': {'focus_visible': true}}, {'tab_index': 1, 'analysis': {'focus_visible': true}}, {'tab_index': 2, 'analysis': {'focus_visible': true}}, {'tab_index': 3, 'analysis': {'focus_visible': true}}, {'tab_index': 4, 'analysis': {'focus_visible': true}}]}''"

definition number_result_text :: string where
  "number_result_text = ''{'elements': [5]}''"

definition example_loads :: "string \<Rightarrow> json option" where
  "example_loads s =
     (if s = replace_quotes number_result_text
      then Some (JObj [(''elements'', JArr [JInt 5])])
      else if s = replace_quotes two_results_raw
      then Some (JObj [(''elements'', JArr [visible_entry 0, JObj [(''tab_index'', JInt 1)]])])
      else if s = replace_quotes five_results_text
      then Some (JObj [(''elements'', JArr (map visible_entry [0, 1, 2, 3, 4]))])
      else None)"

definition seven_records :: "element_info list" where
  "seven_records =
     map (\<lambda>j. make_info j
            \<lparr> tagName = ''BUTTON'', input_type = ''submit'', dom_id = [], className = ''btn'',
              textContent = ''Send'', role = [] \<rparr> ''Unknown'' ''before'' ''after'')
       [0, 1, 2, 3, 4, 5, 6]"

section \<open>Example pages\<close>

text \<open>
  Two pages for the examples: one with three links \<open>a\<close>, \<open>b\<close>, \<open>c\<close> whose focus
  order wraps around, and one whose focused element has a new id after every Tab and no
  resolvable XPath.
\<close>

definition link_step :: "string \<Rightarrow> tab_step" where
  "link_step i =
     \<lparr> shot_before = Inr ''before'',
       active = Inr \<lparr> tagName = ''A'', input_type = [], dom_id = i, className = ''nav'',
                      textContent = i, role = [] \<rparr>,
       xpath = Some (''//*[@id='' @ i @ '']''),
       shot_after = Inr ''after'' \<rparr>"

definition cyclic_page :: "nat \<Rightarrow> tab_step" where
  "cyclic_page n = link_step ([''a'', ''b'', ''c''] ! (n mod 3))"

definition endless_page :: "nat \<Rightarrow> tab_step" where
  "endless_page n =
     \<lparr> shot_before = Inr ''before'',
       active = Inr \<lparr> tagName = ''INPUT'', input_type = ''text'', dom_id = replicate n CHR ''x'',
                      className = [], textContent = [], role = [] \<rparr>,
       xpath = None,
       shot_after = Inr ''after'' \<rparr>"

text \<open>
  A page with three elements whose (tag, id, class, locator) tuples are pairwise
  distinct, while the first two have the same signature string: id \<open>b_c\<close> with no
  class, and id \<open>b\<close> with class \<open>c_\<close>; the XPath of neither resolves.
\<close>

definition collide_step :: "string \<Rightarrow> string \<Rightarrow> tab_step" where
  "collide_step i c =
     \<lparr> shot_before = Inr ''before'',
       active = Inr \<lparr> tagName = ''A'', input_type = [], dom_id = i, className = c,
                      textContent = [], role = [] \<rparr>,
       xpath = None,
       shot_after = Inr ''after'' \<rparr>"

definition collide_page :: "nat \<Rightarrow> tab_step" where
  "collide_page n =
     [collide_step ''b_c'' [], collide_step ''b'' ''c_'', collide_step ''d'' []] ! (n mod 3)"

text \<open>
  An environment in which the temporary directory is made and the browser then fails to
  start.
\<close>

definition example_env :: environment where
  "example_env =
     \<lparr> mkdtemp = Inr ''/tmp/tmpa1b2c3'',
       chrome_start = Some WebDriverException,
       page_load = Inr ''initial'',
       tab_steps = cyclic_page,
       json_loads = example_loads,
       claude = (\<lambda>i b. ApiRaises),
       quit_raises = None,
       rmtree_removes = True \<rparr>"

section \<open>Properties of the aggregation\<close>

lemma categorize_lengths:
  "categorize rs vis invis = Inr (v, i) \<Longrightarrow>
     length v + length i + length (filter lacks_analysis rs) = length vis + length invis + length rs"
proof (induction rs arbitrary: vis invis)
  case Nil
  then show ?case by simp
next
  case (Cons r rs)
  show ?case
  proof (cases "py_in ''analysis'' r")
    case (Inl e)
    with Cons.prems show ?thesis by simp
  next
    case (Inr b)
    show ?thesis
    proof (cases b)
      case False
      with Inr Cons.prems have "categorize rs vis invis = Inr (v, i)"
        by (simp split: sum.splits)
      from Cons.IH [OF this] Inr False show ?thesis
        by (simp add: lacks_analysis_def)
    next
      case True
      with Inr Cons.prems
      have "categorize rs (vis @ [r]) invis = Inr (v, i) \<or> categorize rs vis (invis @ [r]) = Inr (v, i)"
        by (simp split: sum.splits if_splits)
      then show ?thesis
      proof
        assume "categorize rs (vis @ [r]) invis = Inr (v, i)"
        from Cons.IH [OF this] Inr True show ?thesis
          by (simp add: lacks_analysis_def)
      next
        assume "categorize rs vis (invis @ [r]) = Inr (v, i)"
        from Cons.IH [OF this] Inr True show ?thesis
          by (simp add: lacks_analysis_def)
      qed
    qed
  qed
qed

lemma categorize_append:
  "categorize (xs @ ys) vis invis =
     (case categorize xs vis invis of Inl e \<Rightarrow> Inl e | Inr (v, i) \<Rightarrow> categorize ys v i)"
proof (induction xs arbitrary: vis invis)
  case Nil
  show ?case by simp
next
  case (Cons x xs)
  show ?case
    by (simp add: Cons.IH split: sum.splits bool.splits)
qed

lemma categorize_extends:
  "categorize rs vis invis = Inr (v, i) \<Longrightarrow> (\<exists>v'. v = vis @ v') \<and> (\<exists>i'. i = invis @ i')"
proof (induction rs arbitrary: vis invis)
  case Nil
  then show ?case by simp
next
  case (Cons r rs)
  show ?case
  proof (cases "py_in ''analysis'' r")
    case (Inl e)
    with Cons.prems show ?thesis by simp
  next
    case (Inr b)
    show ?thesis
    proof (cases b)
      case False
      with Inr Cons.prems have "categorize rs vis invis = Inr (v, i)"
        by (simp split: sum.splits)
      from Cons.IH [OF this] show ?thesis .
    next
      case True
      with Inr Cons.prems
      have "categorize rs (vis @ [r]) invis = Inr (v, i) \<or> categorize rs vis (invis @ [r]) = Inr (v, i)"
        by (simp split: sum.splits if_splits)
      then show ?thesis
      proof
        assume "categorize rs (vis @ [r]) invis = Inr (v, i)"
        from Cons.IH [OF this] show ?thesis by auto
      next
        assume "categorize rs vis (invis @ [r]) = Inr (v, i)"
        from Cons.IH [OF this] show ?thesis by auto
      qed
    qed
  qed
qed

lemma categorize_invisible_step:
  assumes "map_of kvs ''analysis'' = Some (JObj a)"
    and "\<forall>v. map_of a ''focus_visible'' = Some v \<longrightarrow> \<not> truthy v"
  shows "categorize (JObj kvs # rest) vis invis = categorize rest vis (invis @ [JObj kvs])"
  using assms by (cases "map_of a ''focus_visible''") auto

lemma aggregate_Inr:
  "aggregate rs u = Inr r \<Longrightarrow>
     \<exists>v i. categorize rs [] [] = Inr (v, i) \<and>
       r = \<lparr> url = u, total_focusable_elements = length rs, visible_focus_elements = length v,
             invisible_focus_elements = length i, visible_elements = v, invisible_elements = i,
             wcag_2_4_7_compliant = (length i = 0) \<rparr>"
  by (auto simp: aggregate_def split: sum.splits prod.splits)

lemma categorize_drop_incomplete:
  assumes "map_of m ''analysis'' = None"
  shows "categorize (xs @ JObj m # ys) vis invis = categorize (xs @ ys) vis invis"
  using assms by (simp add: categorize_append split: sum.splits)


lemma categorize_raises:
  "\<not> classifiable r \<Longrightarrow> \<exists>e. categorize (r # rest) vis invis = Inl e"
proof (cases r)
  case (JObj kvs)
  assume "\<not> classifiable r"
  with JObj obtain x where x: "map_of kvs ''analysis'' = Some x" and "\<forall>a. x \<noteq> JObj a"
    by (auto split: option.splits json.splits)
  then have "py_get x ''focus_visible'' (JBool False) = Inl AttributeError"
    by (cases x) auto
  with JObj x show ?thesis by simp
qed (auto split: sum.splits bool.splits)




lemma categorize_step:
  "(\<exists>e. categorize (r # rest) vis invis = Inl e)
   \<or> categorize (r # rest) vis invis =
       categorize rest (vis @ filter judged_visible [r]) (invis @ filter judged_invisible [r])"
proof (cases "classifiable r")
  case False
  from categorize_raises [OF False] show ?thesis by blast
next
  case True
  then obtain kvs where r: "r = JObj kvs" by (cases r) auto
  show ?thesis
  proof (cases "map_of kvs ''analysis''")
    case None
    with r show ?thesis by simp
  next
    case (Some x)
    with True r obtain a where x: "x = JObj a" by (cases x) auto
    show ?thesis
    proof (cases "map_of a ''focus_visible''")
      case None
      with r Some x show ?thesis by simp
    next
      case v: (Some v)
      with r Some x show ?thesis by (cases "truthy v") simp_all
    qed
  qed
qed

lemma categorize_filter:
  "categorize rs vis invis = Inr (v, i) \<Longrightarrow>
     v = vis @ filter judged_visible rs \<and> i = invis @ filter judged_invisible rs"
proof (induction rs arbitrary: vis invis)
  case Nil
  then show ?case by simp
next
  case (Cons r rs)
  from categorize_step [of r rs vis invis] Cons.prems
  have "categorize rs (vis @ filter judged_visible [r]) (invis @ filter judged_invisible [r])
      = Inr (v, i)"
    by auto
  from Cons.IH [OF this] show ?case by simp
qed


lemma judged_neither:
  "map_of kvs ''analysis'' = None \<Longrightarrow>
     \<not> judged_visible (JObj kvs) \<and> \<not> judged_invisible (JObj kvs)"
  by simp



text \<open>
  C1 (as amended). The total of a report is the length of the collected results, and an
  entry without \<^verbatim>\<open>analysis\<close> is skipped by the loop but stays in that length:
  for every report the aggregation produces, the total equals the visible count plus the
  invisible count plus the number of skipped entries. The two sides of the claimed
  invariant agree exactly when no entry was skipped.
\<close>

theorem report_total_counts_skipped:
  "aggregate rs u = Inr r \<Longrightarrow>
     total_focusable_elements r =
       visible_focus_elements r + invisible_focus_elements r + length (filter lacks_analysis rs)"
  using categorize_lengths [of rs "[]" "[]"]
  by (auto simp: aggregate_def split: sum.splits prod.splits)

theorem report_total_counts_skipped_witness:
  "aggregate
     [JObj [(''tab_index'', JInt 0)],
      JObj [(''analysis'', JObj [])],
      JObj [(''analysis'', JObj [(''focus_visible'', JBool True)])]] ''u''
   = Inr \<lparr> url = ''u'', total_focusable_elements = 3, visible_focus_elements = 1,
           invisible_focus_elements = 1,
           visible_elements = [JObj [(''analysis'', JObj [(''focus_visible'', JBool True)])]],
           invisible_elements = [JObj [(''analysis'', JObj [])]],
           wcag_2_4_7_compliant = False \<rparr>
   \<and> (3::nat) = 1 + 1 +
       length (filter lacks_analysis
         [JObj [(''tab_index'', JInt 0)],
          JObj [(''analysis'', JObj [])],
          JObj [(''analysis'', JObj [(''focus_visible'', JBool True)])]])"
proof -
  let ?rs = "[JObj [(''tab_index'', JInt 0)],
      JObj [(''analysis'', JObj [])],
      JObj [(''analysis'', JObj [(''focus_visible'', JBool True)])]]"
  let ?r = "\<lparr> url = ''u'', total_focusable_elements = 3, visible_focus_elements = 1,
           invisible_focus_elements = 1,
           visible_elements = [JObj [(''analysis'', JObj [(''focus_visible'', JBool True)])]],
           invisible_elements = [JObj [(''analysis'', JObj [])]],
           wcag_2_4_7_compliant = False \<rparr>"
  have h: "aggregate ?rs ''u'' = Inr ?r"
    by (simp add: aggregate_def)
  from report_total_counts_skipped [OF h] h show ?thesis
    by simp
qed

text \<open>
  C1 as stated fails: one decoded entry without \<^verbatim>\<open>analysis\<close> gives a report whose
  total is 1 while both counts are 0.
\<close>

theorem total_exceeds_counts_on_skipped_entry:
  "aggregate [JObj [(''tab_index'', JInt 0)]] ''u'' =
     Inr \<lparr> url = ''u'', total_focusable_elements = 1, visible_focus_elements = 0,
           invisible_focus_elements = 0, visible_elements = [], invisible_elements = [],
           wcag_2_4_7_compliant = True \<rparr>
   \<and> total_focusable_elements
        \<lparr> url = ''u'', total_focusable_elements = 1, visible_focus_elements = 0,
          invisible_focus_elements = 0, visible_elements = [], invisible_elements = [],
          wcag_2_4_7_compliant = True \<rparr>
      \<noteq> visible_focus_elements
          \<lparr> url = ''u'', total_focusable_elements = 1, visible_focus_elements = 0,
            invisible_focus_elements = 0, visible_elements = [], invisible_elements = [],
            wcag_2_4_7_compliant = True \<rparr>
        + invisible_focus_elements
          \<lparr> url = ''u'', total_focusable_elements = 1, visible_focus_elements = 0,
            invisible_focus_elements = 0, visible_elements = [], invisible_elements = [],
            wcag_2_4_7_compliant = True \<rparr>"
  by (simp add: aggregate_def)




lemma copy_raises_on_missing_judgement:
  assumes "map_of kvs ''analysis'' = Some (JObj a)" and "map_of a ''focus_visible'' = None"
  shows "categorize_copy (JObj kvs # rest) vis invis = Inl KeyError"
  using assms by simp

text \<open>
  C10. An entry whose \<^verbatim>\<open>analysis\<close> is a dict in which \<^verbatim>\<open>focus_visible\<close> is
  absent or falsy is appended to the invisible list (the \<^verbatim>\<open>.get\<close> defaults to
  \<^verbatim>\<open>False\<close>), not skipped. Every report of a run that collected such an entry
  lists it as invisible, has a positive invisible count and is not compliant; the entry
  alone gives a report with invisible count 1 that is not compliant. (The loop of the
  older copy raises \<^verbatim>\<open>KeyError\<close> on a missing judgement.)
\<close>

theorem missing_judgement_defaults_to_invisible:
  assumes an: "map_of kvs ''analysis'' = Some (JObj a)"
    and falsy: "\<forall>v. map_of a ''focus_visible'' = Some v \<longrightarrow> \<not> truthy v"
  shows "categorize (JObj kvs # rest) vis invis = categorize rest vis (invis @ [JObj kvs])
    \<and> (\<forall>r. aggregate (xs @ JObj kvs # ys) u = Inr r \<longrightarrow>
          JObj kvs \<in> set (invisible_elements r) \<and> 0 < invisible_focus_elements r
          \<and> \<not> wcag_2_4_7_compliant r)
    \<and> aggregate [JObj kvs] u =
        Inr \<lparr> url = u, total_focusable_elements = 1, visible_focus_elements = 0,
              invisible_focus_elements = 1, visible_elements = [],
              invisible_elements = [JObj kvs], wcag_2_4_7_compliant = False \<rparr>"
proof (intro conjI allI impI)
  show "categorize (JObj kvs # rest) vis invis = categorize rest vis (invis @ [JObj kvs])"
    by (rule categorize_invisible_step [OF an falsy])
next
  fix r
  assume agg: "aggregate (xs @ JObj kvs # ys) u = Inr r"
  from aggregate_Inr [OF agg] obtain v i where
    cat: "categorize (xs @ JObj kvs # ys) [] [] = Inr (v, i)"
    and r: "r = \<lparr> url = u, total_focusable_elements = length (xs @ JObj kvs # ys),
             visible_focus_elements = length v,
             invisible_focus_elements = length i, visible_elements = v, invisible_elements = i,
             wcag_2_4_7_compliant = (length i = 0) \<rparr>"
    by blast
  from cat obtain v1 i1 where
    "categorize xs [] [] = Inr (v1, i1)" and "categorize (JObj kvs # ys) v1 i1 = Inr (v, i)"
    by (auto simp: categorize_append split: sum.splits)
  then have "categorize ys v1 (i1 @ [JObj kvs]) = Inr (v, i)"
    by (simp only: categorize_invisible_step [OF an falsy])
  from categorize_extends [OF this] have mem: "JObj kvs \<in> set i"
    by auto
  then have "0 < length i" by (cases i) auto
  with mem r show "JObj kvs \<in> set (invisible_elements r)"
    and "0 < invisible_focus_elements r" and "\<not> wcag_2_4_7_compliant r"
    by simp_all
next
  show "aggregate [JObj kvs] u =
        Inr \<lparr> url = u, total_focusable_elements = 1, visible_focus_elements = 0,
              invisible_focus_elements = 1, visible_elements = [],
              invisible_elements = [JObj kvs], wcag_2_4_7_compliant = False \<rparr>"
    using categorize_invisible_step [OF an falsy, of "[]" "[]" "[]"]
    by (simp add: aggregate_def)
qed

theorem missing_judgement_defaults_to_invisible_witness:
  "aggregate [JObj [(''tab_index'', JInt 0), (''analysis'', JObj [(''focus_visible'', JBool True)])],
              JObj [(''tab_index'', JInt 1), (''analysis'', JObj [(''recommendation'', JStr ''x'')])]] ''u''
     = Inr \<lparr> url = ''u'', total_focusable_elements = 2, visible_focus_elements = 1,
             invisible_focus_elements = 1,
             visible_elements =
               [JObj [(''tab_index'', JInt 0), (''analysis'', JObj [(''focus_visible'', JBool True)])]],
             invisible_elements =
               [JObj [(''tab_index'', JInt 1), (''analysis'', JObj [(''recommendation'', JStr ''x'')])]],
             wcag_2_4_7_compliant = False \<rparr>
   \<and> aggregate [JObj [(''tab_index'', JInt 1), (''analysis'', JObj [(''recommendation'', JStr ''x'')])]] ''u''
     = Inr \<lparr> url = ''u'', total_focusable_elements = 1, visible_focus_elements = 0,
             invisible_focus_elements = 1, visible_elements = [],
             invisible_elements =
               [JObj [(''tab_index'', JInt 1), (''analysis'', JObj [(''recommendation'', JStr ''x'')])]],
             wcag_2_4_7_compliant = False \<rparr>"
proof -
  let ?a = "[(''recommendation'', JStr ''x'')]"
  let ?kvs = "[(''tab_index'', JInt 1), (''analysis'', JObj ?a)]"
  have an: "map_of ?kvs ''analysis'' = Some (JObj ?a)" by simp
  have falsy: "\<forall>v. map_of ?a ''focus_visible'' = Some v \<longrightarrow> \<not> truthy v" by simp
  from missing_judgement_defaults_to_invisible [OF an falsy, of "[]" "[]" "[]" "[]" "[]" "''u''"]
  show ?thesis by (simp add: aggregate_def)
qed

section \<open>Properties of the batch partition\<close>

lemma py_range_eq:
  "0 < step \<Longrightarrow>
     py_range i stop step = map (\<lambda>k. i + k * step) [0..<(stop - i + step - 1) div step]"
proof (induction i stop step rule: py_range.induct)
  case (1 i stop step)
  show ?case
  proof (cases "stop \<le> i")
    case True
    with "1.prems" show ?thesis by (simp add: py_range.simps [of i stop step])
  next
    case False
    with "1.prems" have rec: "py_range i stop step = i # py_range (i + step) stop step"
      by (simp add: py_range.simps [of i stop step])
    from False "1.prems" have IH:
      "py_range (i + step) stop step =
         map (\<lambda>k. i + step + k * step) [0..<(stop - (i + step) + step - 1) div step]"
      using "1.IH" by simp
    have cnt: "(stop - i + step - 1) div step = Suc ((stop - (i + step) + step - 1) div step)"
    proof (cases "i + step \<le> stop")
      case True
      define m where "m = stop - (i + step) + step - 1"
      from True "1.prems" have "stop - i + step - 1 = m + step"
        by (simp add: m_def)
      moreover from "1.prems" have "(m + step) div step = Suc (m div step)"
        by simp
      ultimately show ?thesis by (simp only: m_def)
    next
      case nle: False
      with False "1.prems" have "step \<le> stop - i + step - 1" "stop - i + step - 1 < 2 * step"
        by simp_all
      then have "(stop - i + step - 1) div step = 1"
        by (metis One_nat_def Suc_1 div_nat_eqI mult.commute mult.right_neutral)
      moreover from nle "1.prems" have "(stop - (i + step) + step - 1) div step = 0"
        by simp
      ultimately show ?thesis by simp
    qed
    have "map (\<lambda>k. i + k * step) [0..<Suc ((stop - (i + step) + step - 1) div step)]
          = i # map (\<lambda>k. i + step + k * step) [0..<(stop - (i + step) + step - 1) div step]"
      by (simp add: upt_conv_Cons map_Suc_upt [symmetric] del: upt_Suc)
    with rec IH cnt show ?thesis by simp
  qed
qed

lemma concat_slices:
  "0 < step \<Longrightarrow>
     concat (map (\<lambda>j. py_slice xs j (j + step)) (py_range i (length xs) step)) = drop i xs"
proof (induction i "length xs" step rule: py_range.induct)
  case (1 i step)
  show ?case
  proof (cases "length xs \<le> i")
    case True
    then show ?thesis by (simp add: py_range.simps [of i "length xs" step])
  next
    case False
    with "1.prems" have rec: "py_range i (length xs) step = i # py_range (i + step) (length xs) step"
      by (simp add: py_range.simps [of i "length xs" step])
    from False "1.prems" have
      "concat (map (\<lambda>j. py_slice xs j (j + step)) (py_range (i + step) (length xs) step))
         = drop (i + step) xs"
      using "1.hyps" by simp
    moreover have "take step (drop i xs) @ drop (i + step) xs = drop i xs"
      by (metis add.commute append_take_drop_id drop_drop)
    ultimately show ?thesis
      using rec by (simp add: py_slice_def)
  qed
qed

lemma batches_eq: "batches xs = map (\<lambda>k. take 5 (drop (5 * k) xs)) [0..<(length xs + 4) div 5]"
  by (simp add: batches_def batch_size_def py_range_eq py_slice_def o_def mult.commute add.commute)

text \<open>
  C4. For a sequence of length \<open>N\<close> the partition has \<open>\<lceil>N / 5\<rceil>\<close> batches (written
  \<open>(N + 4) div 5\<close>); the batch with index \<open>k\<close> is the contiguous piece of at most
  five records that starts at position \<open>5 * k\<close>, so the batches do not overlap and keep
  the order; the first \<open>\<lfloor>N / 5\<rfloor>\<close> batches have exactly five records, no batch is empty
  or longer than five; and the concatenation of the batches is the input.
\<close>

theorem batches_partition:
  "length (batches xs) = (length xs + 4) div 5
   \<and> concat (batches xs) = xs
   \<and> (\<forall>k < length (batches xs). batches xs ! k = take 5 (drop (5 * k) xs))
   \<and> (\<forall>k < length xs div 5. length (batches xs ! k) = 5)
   \<and> (\<forall>b \<in> set (batches xs). b \<noteq> [] \<and> length b \<le> 5)"
proof (intro conjI allI impI ballI)
  show len: "length (batches xs) = (length xs + 4) div 5"
    by (simp add: batches_eq)
  show "concat (batches xs) = xs"
    using concat_slices [of batch_size xs 0] by (simp add: batches_def batch_size_def)
  show nth: "batches xs ! k = take 5 (drop (5 * k) xs)" if "k < length (batches xs)" for k
    using that by (simp add: batches_eq)
  show "length (batches xs ! k) = 5" if "k < length xs div 5" for k
  proof -
    from that have "k < (length xs + 4) div 5" by arith
    then have "batches xs ! k = take 5 (drop (5 * k) xs)" by (simp add: batches_eq)
    moreover from that have "5 * k + 5 \<le> length xs" by arith
    ultimately show ?thesis by simp
  qed
  show "b \<noteq> []" if "b \<in> set (batches xs)" for b
  proof -
    from that obtain k where k: "k < (length xs + 4) div 5" and b: "b = take 5 (drop (5 * k) xs)"
      unfolding batches_eq by auto
    from k have "5 * k < length xs" by linarith
    with b show ?thesis by simp
  qed
  show "length b \<le> 5" if "b \<in> set (batches xs)" for b
  proof -
    from that obtain k where "b = take 5 (drop (5 * k) xs)"
      unfolding batches_eq by auto
    then show ?thesis by simp
  qed
qed

theorem batches_partition_witness:
  "batches [0::nat, 1, 2, 3, 4, 5, 6] = [[0, 1, 2, 3, 4], [5, 6]]
   \<and> length (batches [0::nat, 1, 2, 3, 4, 5, 6]) = (7 + 4) div 5
   \<and> concat (batches [0::nat, 1, 2, 3, 4, 5, 6]) = [0, 1, 2, 3, 4, 5, 6]
   \<and> length (batches [0::nat, 1, 2, 3, 4, 5, 6] ! 0) = 5"
proof -
  have ev: "batches [0::nat, 1, 2, 3, 4, 5, 6] = [[0, 1, 2, 3, 4], [5, 6]]"
    by code_simp
  have "(0::nat) < length [0::nat, 1, 2, 3, 4, 5, 6] div 5"
    by simp
  with batches_partition [of "[0::nat, 1, 2, 3, 4, 5, 6]"]
  have "length (batches [0::nat, 1, 2, 3, 4, 5, 6] ! 0) = 5"
    by blast
  with ev show ?thesis by simp
qed

section \<open>Properties of the traversal\<close>

lemma tab_loop_stop:
  "\<not> i < max_tabs \<Longrightarrow> tab_loop driver i seen rs = Inr rs"
  by (simp add: tab_loop.simps [of driver i seen rs])

lemma tab_loop_repeat:
  "i < max_tabs \<Longrightarrow> shot_before (driver i) = Inr before \<Longrightarrow> active (driver i) = Inr el \<Longrightarrow>
     step_signature el (driver i) \<in> seen \<Longrightarrow> tab_loop driver i seen rs = Inr rs"
  by (simp add: tab_loop.simps [of driver i seen rs] step_signature_def)

lemma tab_loop_advance:
  "i < max_tabs \<Longrightarrow> shot_before (driver i) = Inr before \<Longrightarrow> active (driver i) = Inr el \<Longrightarrow>
     step_signature el (driver i) \<notin> seen \<Longrightarrow> shot_after (driver i) = Inr after \<Longrightarrow>
     tab_loop driver i seen rs =
       tab_loop driver (Suc i) (insert (step_signature el (driver i)) seen)
         (rs @ [make_info i el (resolve_xpath (driver i)) before after])"
  by (simp add: tab_loop.simps [of driver i seen rs] step_signature_def)

lemma tab_loop_cases:
  assumes "tab_loop driver i seen rs = Inr out" and "i < max_tabs"
  obtains (repeat) "out = rs"
  | (advance) before el after where
      "shot_before (driver i) = Inr before" "active (driver i) = Inr el"
      "shot_after (driver i) = Inr after" 
      "step_signature el (driver i) \<notin> seen"
      "tab_loop driver (Suc i) (insert (step_signature el (driver i)) seen)
         (rs @ [make_info i el (resolve_xpath (driver i)) before after]) = Inr out"
  using assms
  by (auto simp: tab_loop.simps [of driver i seen rs] step_signature_def
      split: sum.splits if_splits)

lemma tab_loop_indexed:
  "tab_loop driver i seen rs = Inr out \<Longrightarrow> length rs = i \<Longrightarrow> i \<le> max_tabs \<Longrightarrow>
     (\<forall>j<length rs. tab_index (rs ! j) = j) \<Longrightarrow>
     length out \<le> max_tabs \<and> (\<forall>j<length out. tab_index (out ! j) = j)"
proof (induction "max_tabs - i" arbitrary: i seen rs)
  case 0
  then have "\<not> i < max_tabs" by simp
  with "0.prems" show ?case by (simp add: tab_loop_stop)
next
  case (Suc n)
  then have lt: "i < max_tabs" by simp
  from Suc.prems(1) lt show ?case
  proof (cases rule: tab_loop_cases)
    case repeat
    with Suc.prems show ?thesis by simp
  next
    case (advance before el after)
    let ?rs' = "rs @ [make_info i el (resolve_xpath (driver i)) before after]"
    have idx: "\<forall>j<length ?rs'. tab_index (?rs' ! j) = j"
      using Suc.prems(2,4) by (auto simp: nth_append make_info_def less_Suc_eq)
    from Suc.hyps(2) have "n = max_tabs - Suc i" by simp
    from Suc.hyps(1) [OF this advance(5)] Suc.prems(2) lt idx
    show ?thesis by simp
  qed
qed

lemma tab_loop_prefix:
  assumes ok: "\<forall>j<k. shot_before (driver j) = Inr (b j) \<and> active (driver j) = Inr (a j)
                  \<and> shot_after (driver j) = Inr (c j)"
    and dist: "distinct (map (\<lambda>j. step_signature (a j) (driver j)) [0..<k])"
    and k: "k \<le> max_tabs"
  shows "tab_loop driver 0 {} [] =
           tab_loop driver k ((\<lambda>j. step_signature (a j) (driver j)) ` {0..<k})
             (map (\<lambda>j. make_info j (a j) (resolve_xpath (driver j)) (b j) (c j)) [0..<k])"
  using assms
proof (induction k)
  case 0
  show ?case by simp
next
  case (Suc k)
  let ?sg = "\<lambda>j. step_signature (a j) (driver j)"
  from Suc.prems have IH: "tab_loop driver 0 {} [] =
           tab_loop driver k (?sg ` {0..<k})
             (map (\<lambda>j. make_info j (a j) (resolve_xpath (driver j)) (b j) (c j)) [0..<k])"
    using Suc.IH by simp
  from Suc.prems(2) have fresh: "?sg k \<notin> ?sg ` {0..<k}"
    by auto
  from Suc.prems(1) have st: "shot_before (driver k) = Inr (b k)" "active (driver k) = Inr (a k)"
    "shot_after (driver k) = Inr (c k)"
    by simp_all
  from Suc.prems(3) have "k < max_tabs" by simp
  from tab_loop_advance [where driver = driver and i = k, OF this st(1) st(2) fresh st(3)] IH
  show ?case
    by (simp add: atLeast0_lessThan_Suc)
qed

lemma traverse_cyclic_page:
  "traverse cyclic_page =
     Inr [\<lparr> tab_index = 0, element_tag = ''A'', element_type = [], element_id = ''a'',
            element_class = ''nav'', element_text = ''a'', element_role = [],
            element_xpath = ''//*[@id=a]'', before_tab_screenshot = ''before'',
            after_tab_screenshot = ''after'' \<rparr>,
          \<lparr> tab_index = 1, element_tag = ''A'', element_type = [], element_id = ''b'',
            element_class = ''nav'', element_text = ''b'', element_role = [],
            element_xpath = ''//*[@id=b]'', before_tab_screenshot = ''before'',
            after_tab_screenshot = ''after'' \<rparr>,
          \<lparr> tab_index = 2, element_tag = ''A'', element_type = [], element_id = ''c'',
            element_class = ''nav'', element_text = ''c'', element_role = [],
            element_xpath = ''//*[@id=c]'', before_tab_screenshot = ''before'',
            after_tab_screenshot = ''after'' \<rparr>]"
  by (simp add: traverse_def tab_loop.simps cyclic_page_def link_step_def max_tabs_def
      element_signature_def resolve_xpath_def make_info_def)

lemma traverse_endless_page:
  "traverse endless_page =
     Inr (map (\<lambda>j. make_info j
                 \<lparr> tagName = ''INPUT'', input_type = ''text'', dom_id = replicate j CHR ''x'',
                   className = [], textContent = [], role = [] \<rparr>
                 ''Unknown'' ''before'' ''after'') [0..<100])"
proof -
  let ?a = "\<lambda>j. \<lparr> tagName = ''INPUT'', input_type = ''text'', dom_id = replicate j CHR ''x'',
                   className = [], textContent = [], role = [] \<rparr>"
  have ok: "\<forall>j<100. shot_before (endless_page j) = Inr ''before''
              \<and> active (endless_page j) = Inr (?a j) \<and> shot_after (endless_page j) = Inr ''after''"
    by (simp add: endless_page_def)
  have "inj (\<lambda>j. step_signature (?a j) (endless_page j))"
  proof (rule injI)
    fix i j
    assume "step_signature (?a i) (endless_page i) = step_signature (?a j) (endless_page j)"
    then have "length (step_signature (?a i) (endless_page i))
        = length (step_signature (?a j) (endless_page j))"
      by (rule arg_cong)
    then show "i = j"
      by (simp add: step_signature_def element_signature_def resolve_xpath_def endless_page_def)
  qed
  then have dist: "distinct (map (\<lambda>j. step_signature (?a j) (endless_page j)) [0..<100])"
    by (simp add: distinct_map inj_on_def)
  have k: "100 \<le> max_tabs" by (simp add: max_tabs_def)
  have xp: "\<And>j. resolve_xpath (endless_page j) = ''Unknown''"
    by (simp add: resolve_xpath_def endless_page_def)
  from tab_loop_prefix [where driver = endless_page and k = 100 and a = ?a, OF ok dist k]
  show ?thesis
    by (simp add: traverse_def tab_loop_stop max_tabs_def xp)
qed

text \<open>
  C5. Every traversal that returns yields at most 100 records, and the record at
  position \<open>j\<close> carries \<open>tab_index = j\<close>. (The loop is a total function: it ends after
  at most 100 iterations, with the records or with the exception of a browser call.)
\<close>

theorem traversal_capped_and_indexed:
  "traverse driver = Inr records \<Longrightarrow>
     length records \<le> 100 \<and> (\<forall>j<length records. tab_index (records ! j) = j)"
  using tab_loop_indexed [of driver 0 "{}" "[]" records]
  by (simp add: traverse_def max_tabs_def)

theorem traversal_capped_and_indexed_witness:
  "traverse cyclic_page =
     Inr [make_info 0 \<lparr> tagName = ''A'', input_type = [], dom_id = ''a'', className = ''nav'',
                         textContent = ''a'', role = [] \<rparr> ''//*[@id=a]'' ''before'' ''after'',
          make_info 1 \<lparr> tagName = ''A'', input_type = [], dom_id = ''b'', className = ''nav'',
                         textContent = ''b'', role = [] \<rparr> ''//*[@id=b]'' ''before'' ''after'',
          make_info 2 \<lparr> tagName = ''A'', input_type = [], dom_id = ''c'', className = ''nav'',
                         textContent = ''c'', role = [] \<rparr> ''//*[@id=c]'' ''before'' ''after'']
   \<and> length (projr (traverse endless_page)) = 100
   \<and> tab_index (projr (traverse endless_page) ! 99) = 99"
proof -
  from traversal_capped_and_indexed [OF traverse_endless_page]
  have "tab_index (map (\<lambda>j. make_info j
                 \<lparr> tagName = ''INPUT'', input_type = ''text'', dom_id = replicate j CHR ''x'',
                   className = [], textContent = [], role = [] \<rparr>
                 ''Unknown'' ''before'' ''after'') [0..<100] ! 99) = 99"
    by simp
  then show ?thesis
    by (simp add: traverse_cyclic_page traverse_endless_page make_info_def)
qed

lemma split_at_underscore:
  "CHR ''_'' \<notin> set a \<Longrightarrow> CHR ''_'' \<notin> set a' \<Longrightarrow>
     a @ CHR ''_'' # r = a' @ CHR ''_'' # r' \<Longrightarrow> a = a' \<and> r = r'"
proof (induction a arbitrary: a')
  case Nil
  then show ?case by (cases a') auto
next
  case (Cons x a)
  then show ?case by (cases a') auto
qed

lemma signature_injective:
  assumes "CHR ''_'' \<notin> set tg" "CHR ''_'' \<notin> set i" "CHR ''_'' \<notin> set c"
    and "CHR ''_'' \<notin> set tg'" "CHR ''_'' \<notin> set i'" "CHR ''_'' \<notin> set c'"
    and eq: "tg @ ''_'' @ i @ ''_'' @ c @ ''_'' @ x = tg' @ ''_'' @ i' @ ''_'' @ c' @ ''_'' @ x'"
  shows "tg = tg' \<and> i = i' \<and> c = c' \<and> x = x'"
proof -
  from eq have "tg @ CHR ''_'' # (i @ ''_'' @ c @ ''_'' @ x) = tg' @ CHR ''_'' # (i' @ ''_'' @ c' @ ''_'' @ x')"
    by simp
  from split_at_underscore [OF assms(1) assms(4) this]
  have t: "tg = tg'" and r1: "i @ CHR ''_'' # (c @ ''_'' @ x) = i' @ CHR ''_'' # (c' @ ''_'' @ x')"
    by simp_all
  from split_at_underscore [OF assms(2) assms(5) r1]
  have i: "i = i'" and r2: "c @ CHR ''_'' # x = c' @ CHR ''_'' # x'"
    by simp_all
  from split_at_underscore [OF assms(3) assms(6) r2] t i show ?thesis
    by simp
qed

text \<open>
  Where no tag, id or class holds an underscore, distinct
  (tag, id, class, locator) tuples have distinct signature strings.
\<close>

lemma distinct_tuples_distinct_signatures:
  assumes plain: "\<forall>j<k. CHR ''_'' \<notin> set (tagName (a j)) \<and> CHR ''_'' \<notin> set (dom_id (a j))
                     \<and> CHR ''_'' \<notin> set (className (a j))"
    and dist: "distinct (map (\<lambda>j. ElementSignature (a j) (driver j)) [0..<k])"
  shows "distinct (map (\<lambda>j. tagName (a j) @ ''_'' @ dom_id (a j) @ ''_'' @ className (a j)
                          @ ''_'' @ resolve_xpath (driver j)) [0..<k])"
proof -
  from dist have inj: "inj_on (\<lambda>j. ElementSignature (a j) (driver j)) {0..<k}"
    by (simp add: distinct_map)
  have "inj_on (\<lambda>j. tagName (a j) @ ''_'' @ dom_id (a j) @ ''_'' @ className (a j)
                          @ ''_'' @ resolve_xpath (driver j)) {0..<k}"
  proof (rule inj_onI)
    fix p q
    assume p: "p \<in> {0..<k}" and q: "q \<in> {0..<k}"
      and eq: "tagName (a p) @ ''_'' @ dom_id (a p) @ ''_'' @ className (a p)
                 @ ''_'' @ resolve_xpath (driver p)
             = tagName (a q) @ ''_'' @ dom_id (a q) @ ''_'' @ className (a q)
                 @ ''_'' @ resolve_xpath (driver q)"
    from p q plain have
      "CHR ''_'' \<notin> set (tagName (a p))" "CHR ''_'' \<notin> set (dom_id (a p))"
      "CHR ''_'' \<notin> set (className (a p))"
      "CHR ''_'' \<notin> set (tagName (a q))" "CHR ''_'' \<notin> set (dom_id (a q))"
      "CHR ''_'' \<notin> set (className (a q))"
      by simp_all
    from signature_injective [OF this eq]
    have "ElementSignature (a p) (driver p) = ElementSignature (a q) (driver q)"
      by (simp add: ElementSignature_def)
    with inj p q show "p = q" by (simp add: inj_on_def)
  qed
  then show ?thesis by (simp add: distinct_map)
qed

lemma traverse_collide_page:
  "traverse collide_page =
     Inr [make_info 0 \<lparr> tagName = ''A'', input_type = [], dom_id = ''b_c'', className = [],
                         textContent = [], role = [] \<rparr> ''Unknown'' ''before'' ''after'']"
  by (simp add: traverse_def tab_loop.simps collide_page_def collide_step_def max_tabs_def
      element_signature_def resolve_xpath_def)

text \<open>
  C3 (as amended). The seen set holds signature strings: tag, id, class and XPath joined
  by underscores. Let the first \<open>k < 100\<close> steps of a page succeed with pairwise distinct
  signature strings, and let the element focused in step \<open>k\<close> have the
  (tag, id, class, locator) tuple of one of them. Then the traversal ends in step \<open>k\<close>
  and returns exactly the \<open>k\<close> records of the steps before it; the repeated element is
  not appended. For the page with focus order \<open>a, b, c, a, \<dots>\<close> these are the three
  records of \<open>a\<close>, \<open>b\<close> and \<open>c\<close>.
\<close>

theorem cycle_stops_traversal:
  assumes k: "k < max_tabs"
    and ok: "\<forall>j<k. shot_before (driver j) = Inr (b j) \<and> active (driver j) = Inr (a j)
                  \<and> shot_after (driver j) = Inr (c j)"
    and dist: "distinct (map (\<lambda>j. tagName (a j) @ ''_'' @ dom_id (a j) @ ''_'' @ className (a j)
                                @ ''_'' @ resolve_xpath (driver j)) [0..<k])"
    and before: "shot_before (driver k) = Inr bk"
    and el: "active (driver k) = Inr el"
    and seen: "\<exists>j<k. ElementSignature el (driver k) = ElementSignature (a j) (driver j)"
  shows "traverse driver =
           Inr (map (\<lambda>j. make_info j (a j) (resolve_xpath (driver j)) (b j) (c j)) [0..<k])"
proof -
  from seen obtain j where "j < k"
    and "ElementSignature el (driver k) = ElementSignature (a j) (driver j)"
    by blast
  then have "step_signature el (driver k) = step_signature (a j) (driver j)"
    by (simp add: ElementSignature_def step_signature_def)
  with \<open>j < k\<close> have mem: "step_signature el (driver k)
      \<in> (\<lambda>j. step_signature (a j) (driver j)) ` {0..<k}"
    by auto
  from dist have dist': "distinct (map (\<lambda>j. step_signature (a j) (driver j)) [0..<k])"
    by (simp add: step_signature_def element_signature_def)
  from k have "k \<le> max_tabs" by simp
  from tab_loop_prefix [OF ok dist' this]
    tab_loop_repeat [where driver = driver and i = k, OF k before el mem]
  show ?thesis by (simp add: traverse_def)
qed

theorem cycle_stops_traversal_witness:
  "traverse cyclic_page =
     Inr (map (\<lambda>j. make_info j
                 \<lparr> tagName = ''A'', input_type = [], dom_id = [''a'', ''b'', ''c''] ! (j mod 3),
                   className = ''nav'', textContent = [''a'', ''b'', ''c''] ! (j mod 3), role = [] \<rparr>
                 (resolve_xpath (cyclic_page j)) ''before'' ''after'') [0..<3])"
proof -
  let ?a = "\<lambda>j. \<lparr> tagName = ''A'', input_type = [], dom_id = [''a'', ''b'', ''c''] ! (j mod 3),
                   className = ''nav'', textContent = [''a'', ''b'', ''c''] ! (j mod 3), role = [] \<rparr>"
  have k: "3 < max_tabs" by (simp add: max_tabs_def)
  have ok: "\<forall>j<3. shot_before (cyclic_page j) = Inr ''before'' \<and> active (cyclic_page j) = Inr (?a j)
                  \<and> shot_after (cyclic_page j) = Inr ''after''"
    by (simp add: cyclic_page_def link_step_def)
  have dist: "distinct (map (\<lambda>j. tagName (?a j) @ ''_'' @ dom_id (?a j) @ ''_'' @ className (?a j)
                                @ ''_'' @ resolve_xpath (cyclic_page j)) [0..<3])"
    by code_simp
  have before: "shot_before (cyclic_page 3) = Inr ''before''"
    by (simp add: cyclic_page_def link_step_def)
  have el: "active (cyclic_page 3) = Inr (?a 3)"
    by (simp add: cyclic_page_def link_step_def)
  have seen: "\<exists>j<3. ElementSignature (?a 3) (cyclic_page 3) = ElementSignature (?a j) (cyclic_page j)"
    by (rule exI [of _ 0]) (simp add: ElementSignature_def cyclic_page_def)
  from cycle_stops_traversal [where driver = cyclic_page and k = 3 and a = ?a, OF k ok dist before el seen]
  show ?thesis .
qed

text \<open>
  C3 as stated fails where distinct tuples have the same signature string. The page
  below has the focus order \<open>A, B, C, A, \<dots>\<close> with three pairwise distinct
  (tag, id, class, locator) tuples; the strings of \<open>A\<close> and \<open>B\<close> are both
  \<open>A_b_c__Unknown\<close>, and the traversal returns one record, not three.
\<close>

theorem colliding_signatures_stop_early:
  "traverse collide_page =
     Inr [make_info 0 \<lparr> tagName = ''A'', input_type = [], dom_id = ''b_c'', className = [],
                         textContent = [], role = [] \<rparr> ''Unknown'' ''before'' ''after'']
   \<and> distinct
       [ElementSignature \<lparr> tagName = ''A'', input_type = [], dom_id = ''b_c'', className = [],
                           textContent = [], role = [] \<rparr> (collide_page 0),
        ElementSignature \<lparr> tagName = ''A'', input_type = [], dom_id = ''b'', className = ''c_'',
                           textContent = [], role = [] \<rparr> (collide_page 1),
        ElementSignature \<lparr> tagName = ''A'', input_type = [], dom_id = ''d'', className = [],
                           textContent = [], role = [] \<rparr> (collide_page 2)]
   \<and> active (collide_page 0) =
       Inr \<lparr> tagName = ''A'', input_type = [], dom_id = ''b_c'', className = [],
             textContent = [], role = [] \<rparr>
   \<and> active (collide_page 1) =
       Inr \<lparr> tagName = ''A'', input_type = [], dom_id = ''b'', className = ''c_'',
             textContent = [], role = [] \<rparr>
   \<and> active (collide_page 2) =
       Inr \<lparr> tagName = ''A'', input_type = [], dom_id = ''d'', className = [],
             textContent = [], role = [] \<rparr>
   \<and> active (collide_page 3) = active (collide_page 0)"
  by (simp add: traverse_collide_page)
    (simp add: ElementSignature_def collide_page_def collide_step_def)

section \<open>Properties of the batch loop\<close>

lemma failed_call_returns_None:
  "call_fails loads outcome \<Longrightarrow> analyze_focus_batch loads outcome = JNull"
  by (auto simp: call_fails_def unparseable_def analyze_focus_batch_def
      split: api_outcome.splits option.splits)

lemma failed_call_contributes_nothing:
  "call_fails loads outcome \<Longrightarrow> batch_contribution loads outcome = []"
  by (simp add: batch_contribution_def failed_call_returns_None)


lemma analyze_batches_concat:
  "analyze_batches loads service bs acc printed =
     (acc @ concat (map (\<lambda>(i, b). batch_contribution loads (service i b)) bs),
      printed @ concat (map (\<lambda>(i, b). batch_warnings loads i (service i b)) bs))"
proof (induction bs arbitrary: acc printed)
  case Nil
  show ?case by simp
next
  case (Cons x bs)
  obtain i b where x: "x = (i, b)" by (cases x)
  show ?case
    by (simp add: x Cons.IH batch_contribution_def batch_warnings_def Let_def split: sum.splits)
qed

lemma concat_map_filter_empty:
  "(\<And>x. x \<in> set xs \<Longrightarrow> P x \<Longrightarrow> f x = []) \<Longrightarrow>
     concat (map f xs) = concat (map f (filter (\<lambda>x. \<not> P x) xs))"
  by (induction xs) auto

lemma collected_without_failed:
  "fst (analyze_batches loads service bs [] []) =
     concat (map (\<lambda>(i, b). batch_contribution loads (service i b))
       (filter (\<lambda>(i, b). \<not> call_fails loads (service i b)) bs))"
proof -
  have "concat (map (\<lambda>(i, b). batch_contribution loads (service i b)) bs) =
        concat (map (\<lambda>(i, b). batch_contribution loads (service i b))
          (filter (\<lambda>x. \<not> (case x of (i, b) \<Rightarrow> call_fails loads (service i b))) bs))"
    by (rule concat_map_filter_empty) (auto simp: failed_call_contributes_nothing)
  then show ?thesis
    by (simp add: analyze_batches_concat case_prod_unfold)
qed


lemma batches_seven:
  "length xs = 7 \<Longrightarrow> batches xs = [take 5 xs, drop 5 xs]"
  by (simp add: batches_eq upt_rec)


lemma categorize_all_visible:
  "list_all judged_visible es \<Longrightarrow> categorize es vis invis = Inr (vis @ es, invis)"
proof (induction es arbitrary: vis)
  case Nil
  show ?case by simp
next
  case (Cons e es)
  from Cons.prems have e: "judged_visible e" and es: "list_all judged_visible es"
    by simp_all
  from e obtain kvs a v where "e = JObj kvs" "map_of kvs ''analysis'' = Some (JObj a)"
    "map_of a ''focus_visible'' = Some v" "truthy v"
    by (cases e) (auto split: option.splits json.splits)
  then have "categorize (e # es) vis invis = categorize es (vis @ [e]) invis"
    by simp
  with Cons.IH [OF es] show ?case by simp
qed

lemma extract_two_results:
  "extract_json two_results_text = Some (replace_quotes two_results_raw)"
  by code_simp

lemma loads_two_results:
  "example_loads (replace_quotes two_results_raw) =
     Some (JObj [(''elements'', JArr [visible_entry 0, JObj [(''tab_index'', JInt 1)]])])"
  by code_simp

lemma extract_five_results:
  "extract_json five_results_text = Some (replace_quotes five_results_text)"
  by code_simp

lemma loads_five_results:
  "example_loads (replace_quotes five_results_text) =
     Some (JObj [(''elements'', JArr (map visible_entry [0, 1, 2, 3, 4]))])"
  by code_simp





text \<open>
  C7 (as amended). \<^verbatim>\<open>analyze_focus_batch\<close> returns the decoded
  \<^verbatim>\<open>elements\<close> list as it is, without looking at the entries: a batch whose
  answer decodes to an object with an \<^verbatim>\<open>elements\<close> list contributes every entry of
  that list, also when some entry lacks its judgement field, and the loop prints no
  warning for it unless the list is empty. An entry that is a dict without the key
  \<^verbatim>\<open>analysis\<close> is skipped alone, by the aggregation loop: the visible and the
  invisible list are those of the collected results without that entry.
\<close>

theorem batch_with_incomplete_entry_kept:
  assumes "extract_json response_text = Some json_str"
    and "loads json_str = Some (JObj obj)"
    and "map_of obj ''elements'' = Some (JArr es)"
    and "map_of m ''analysis'' = None"
  shows "analyze_focus_batch loads (ApiText response_text) = JArr es
    \<and> batch_contribution loads (ApiText response_text) = es
    \<and> batch_warnings loads k (ApiText response_text)
        = (if es = [] then [NoResultSkipped (k + 1)] else [])
    \<and> categorize (xs @ JObj m # ys) vis invis = categorize (xs @ ys) vis invis"
  using assms categorize_drop_incomplete [of m xs ys vis invis]
  by (simp add: batch_contribution_def batch_warnings_def analyze_focus_batch_def)

theorem batch_with_incomplete_entry_kept_witness:
  "analyze_focus_batch example_loads (ApiText two_results_text)
     = JArr [visible_entry 0, JObj [(''tab_index'', JInt 1)]]
   \<and> batch_contribution example_loads (ApiText two_results_text)
     = [visible_entry 0, JObj [(''tab_index'', JInt 1)]]
   \<and> batch_warnings example_loads 0 (ApiText two_results_text) = []
   \<and> categorize ([visible_entry 0] @ JObj [(''tab_index'', JInt 1)] # []) [] []
     = categorize ([visible_entry 0] @ []) [] []"
proof -
  have e: "map_of [(''elements'', JArr [visible_entry 0, JObj [(''tab_index'', JInt 1)]])] ''elements''
      = Some (JArr [visible_entry 0, JObj [(''tab_index'', JInt 1)]])"
    by simp
  have m: "map_of [(''tab_index'', JInt 1)] ''analysis'' = None"
    by simp
  from batch_with_incomplete_entry_kept
    [where loads = example_loads and k = 0 and xs = "[visible_entry 0]" and ys = "[]"
       and vis = "[]" and invis = "[]",
     OF extract_two_results loads_two_results e m]
  show ?thesis by simp
qed

text \<open>
  C7 as stated fails: the first example answer holds an entry without
  \<^verbatim>\<open>analysis\<close>, and the batch is not discarded. It contributes both entries, and
  the report of the run counts the complete one as visible.
\<close>

theorem incomplete_entry_does_not_discard_batch:
  "lacks_analysis (JObj [(''tab_index'', JInt 1)])
   \<and> batch_contribution example_loads (ApiText two_results_text)
     = [visible_entry 0, JObj [(''tab_index'', JInt 1)]]
   \<and> process_focus_results example_loads (\<lambda>i b. ApiText two_results_text)
       (take 2 seven_records) ''u''
     = Inr \<lparr> url = ''u'', total_focusable_elements = 2, visible_focus_elements = 1,
           invisible_focus_elements = 0, visible_elements = [visible_entry 0],
           invisible_elements = [], wcag_2_4_7_compliant = True \<rparr>"
proof (intro conjI)
  show "lacks_analysis (JObj [(''tab_index'', JInt 1)])"
    by (simp add: lacks_analysis_def)
  show c: "batch_contribution example_loads (ApiText two_results_text)
     = [visible_entry 0, JObj [(''tab_index'', JInt 1)]]"
    by code_simp
  have "batches (take 2 seven_records) = [take 2 seven_records]"
    by (simp add: batches_eq seven_records_def)
  then show "process_focus_results example_loads (\<lambda>i b. ApiText two_results_text)
       (take 2 seven_records) ''u''
     = Inr \<lparr> url = ''u'', total_focusable_elements = 2, visible_focus_elements = 1,
           invisible_focus_elements = 0, visible_elements = [visible_entry 0],
           invisible_elements = [], wcag_2_4_7_compliant = True \<rparr>"
    by (simp add: process_focus_results_def analyze_batches_concat c aggregate_def visible_entry_def)
qed

text \<open>
  C8. Every report is computed from the entries collected from the batches whose call
  did not fail, and from nothing else: its visible list holds the collected entries
  judged visible, its invisible list those judged invisible, the total is the number of
  collected entries, the two counts are the lengths of the two lists, and the compliance
  flag is \<open>invisible count = 0\<close>, which holds
  exactly when no collected entry is judged invisible. In a run over seven records
  (batches of five and two) in which the first answer decodes to five entries judged
  visible and the second call raises, the report has total 5, visible 5, invisible 0 and
  is compliant.
\<close>

theorem compliance_is_derived:
  "(\<forall>r. process_focus_results loads service focus_results u = Inr r \<longrightarrow>
        visible_elements r =
          filter judged_visible
            (concat (map (\<lambda>(i, b). batch_contribution loads (service i b))
               (filter (\<lambda>(i, b). \<not> call_fails loads (service i b))
                  (List.enumerate 0 (batches focus_results)))))
        \<and> invisible_elements r =
          filter judged_invisible
            (concat (map (\<lambda>(i, b). batch_contribution loads (service i b))
               (filter (\<lambda>(i, b). \<not> call_fails loads (service i b))
                  (List.enumerate 0 (batches focus_results)))))
        \<and> total_focusable_elements r =
          length
            (concat (map (\<lambda>(i, b). batch_contribution loads (service i b))
               (filter (\<lambda>(i, b). \<not> call_fails loads (service i b))
                  (List.enumerate 0 (batches focus_results)))))
        \<and> visible_focus_elements r = length (visible_elements r)
        \<and> invisible_focus_elements r = length (invisible_elements r)
        \<and> wcag_2_4_7_compliant r = (invisible_focus_elements r = 0)
        \<and> wcag_2_4_7_compliant r =
            (filter judged_invisible
               (concat (map (\<lambda>(i, b). batch_contribution loads (service i b))
                  (filter (\<lambda>(i, b). \<not> call_fails loads (service i b))
                     (List.enumerate 0 (batches focus_results))))) = []))
   \<and> (length focus_results = 7
        \<and> service 0 (take 5 focus_results) = ApiText response_text
        \<and> extract_json response_text = Some json_str
        \<and> loads json_str = Some (JObj obj)
        \<and> map_of obj ''elements'' = Some (JArr es)
        \<and> length es = 5 \<and> list_all judged_visible es
        \<and> service 1 (drop 5 focus_results) = ApiRaises
      \<longrightarrow> process_focus_results loads service focus_results u =
            Inr \<lparr> url = u, total_focusable_elements = 5, visible_focus_elements = 5,
                  invisible_focus_elements = 0, visible_elements = es,
                  invisible_elements = [], wcag_2_4_7_compliant = True \<rparr>)"
proof (intro conjI allI impI)
  fix r
  let ?C = "concat (map (\<lambda>(i, b). batch_contribution loads (service i b))
               (filter (\<lambda>(i, b). \<not> call_fails loads (service i b))
                  (List.enumerate 0 (batches focus_results))))"
  assume "process_focus_results loads service focus_results u = Inr r"
  then have agg: "aggregate ?C u = Inr r"
    by (simp add: process_focus_results_def collected_without_failed)
  from aggregate_Inr [OF agg] obtain v i where
    c: "categorize ?C [] [] = Inr (v, i)"
    and r: "r = \<lparr> url = u, total_focusable_elements = length ?C, visible_focus_elements = length v,
             invisible_focus_elements = length i, visible_elements = v, invisible_elements = i,
             wcag_2_4_7_compliant = (length i = 0) \<rparr>"
    by blast
  from categorize_filter [OF c] have v: "v = filter judged_visible ?C"
    and i: "i = filter judged_invisible ?C"
    by simp_all
  from r v show "visible_elements r = filter judged_visible ?C" by simp
  from r i show "invisible_elements r = filter judged_invisible ?C" by simp
  from r show "total_focusable_elements r = length ?C" by simp
  from r show "visible_focus_elements r = length (visible_elements r)" by simp
  from r show "invisible_focus_elements r = length (invisible_elements r)" by simp
  from r show "wcag_2_4_7_compliant r = (invisible_focus_elements r = 0)" by simp
  from r i show "wcag_2_4_7_compliant r = (filter judged_invisible ?C = [])" by simp
next
  assume h: "length focus_results = 7
        \<and> service 0 (take 5 focus_results) = ApiText response_text
        \<and> extract_json response_text = Some json_str
        \<and> loads json_str = Some (JObj obj)
        \<and> map_of obj ''elements'' = Some (JArr es)
        \<and> length es = 5 \<and> list_all judged_visible es
        \<and> service 1 (drop 5 focus_results) = ApiRaises"
  then have b: "List.enumerate 0 (batches focus_results)
      = [(0, take 5 focus_results), (1, drop 5 focus_results)]"
    by (simp add: batches_seven)
  from h have c0: "batch_contribution loads (service 0 (take 5 focus_results)) = es"
    by (simp add: batch_contribution_def analyze_focus_batch_def)
  from h have c1: "batch_contribution loads (service 1 (drop 5 focus_results)) = []"
    by (simp add: batch_contribution_def analyze_focus_batch_def)
  from h have "categorize es [] [] = Inr (es, [])"
    using categorize_all_visible [of es "[]" "[]"] by simp
  with h b c0 c1
  show "process_focus_results loads service focus_results u =
            Inr \<lparr> url = u, total_focusable_elements = 5, visible_focus_elements = 5,
                  invisible_focus_elements = 0, visible_elements = es,
                  invisible_elements = [], wcag_2_4_7_compliant = True \<rparr>"
    by (simp add: process_focus_results_def analyze_batches_concat aggregate_def)
qed

theorem compliance_is_derived_witness:
  "process_focus_results example_loads
     (\<lambda>i b. if i = 0 then ApiText five_results_text else ApiRaises) seven_records ''u'' =
       Inr \<lparr> url = ''u'', total_focusable_elements = 5, visible_focus_elements = 5,
             invisible_focus_elements = 0, visible_elements = map visible_entry [0, 1, 2, 3, 4],
             invisible_elements = [], wcag_2_4_7_compliant = True \<rparr>
   \<and> wcag_2_4_7_compliant
        \<lparr> url = ''u'', total_focusable_elements = 5, visible_focus_elements = 5,
          invisible_focus_elements = 0, visible_elements = map visible_entry [0, 1, 2, 3, 4],
          invisible_elements = [], wcag_2_4_7_compliant = True \<rparr>
      = (invisible_focus_elements
        \<lparr> url = ''u'', total_focusable_elements = 5, visible_focus_elements = 5,
          invisible_focus_elements = 0, visible_elements = map visible_entry [0, 1, 2, 3, 4],
          invisible_elements = [], wcag_2_4_7_compliant = True \<rparr> = 0)"
proof -
  let ?svc = "\<lambda>(i::nat) (b::element_info list). if i = 0 then ApiText five_results_text else ApiRaises"
  have h: "length seven_records = 7
        \<and> ?svc 0 (take 5 seven_records) = ApiText five_results_text
        \<and> extract_json five_results_text = Some (replace_quotes five_results_text)
        \<and> example_loads (replace_quotes five_results_text)
            = Some (JObj [(''elements'', JArr (map visible_entry [0, 1, 2, 3, 4]))])
        \<and> map_of [(''elements'', JArr (map visible_entry [0, 1, 2, 3, 4]))] ''elements''
            = Some (JArr (map visible_entry [0, 1, 2, 3, 4]))
        \<and> length (map visible_entry [0, 1, 2, 3, 4]) = 5
        \<and> list_all judged_visible (map visible_entry [0, 1, 2, 3, 4])
        \<and> ?svc 1 (drop 5 seven_records) = ApiRaises"
    using extract_five_results loads_five_results
    by (simp add: seven_records_def visible_entry_def)
  note T = compliance_is_derived [of example_loads ?svc seven_records "''u''" five_results_text
      "replace_quotes five_results_text" "[(''elements'', JArr (map visible_entry [0, 1, 2, 3, 4]))]"
      "map visible_entry [0, 1, 2, 3, 4]"]
  from T h have "process_focus_results example_loads ?svc seven_records ''u'' =
       Inr \<lparr> url = ''u'', total_focusable_elements = 5, visible_focus_elements = 5,
             invisible_focus_elements = 0, visible_elements = map visible_entry [0, 1, 2, 3, 4],
             invisible_elements = [], wcag_2_4_7_compliant = True \<rparr>"
    by blast
  then show ?thesis by simp
qed

section \<open>Properties of the browser session\<close>

text \<open>
  Once the set-up has succeeded, the \<^verbatim>\<open>finally\<close> block runs whatever the body
  did: when \<^verbatim>\<open>driver.quit()\<close> returns and the removal works, the run leaves no
  browser and no directory behind. When \<^verbatim>\<open>driver.quit()\<close> raises, the directory
  is not removed.
\<close>

lemma session_released_after_setup:
  assumes "mkdtemp env = Inr temp_dir" and "temp_dir \<noteq> []" and "temp_dir \<notin> temp_dirs w"
    and "chrome_start env = None" and "quit_raises env = None" and "rmtree_removes env"
  shows "snd (check_focus_visibility env u w) = w\<lparr>browser_running := False\<rparr>"
  using assms
  by (simp add: check_focus_visibility_def setup_driver_def cleanup_temp_dir_def Let_def)

lemma cleanup_skipped_when_quit_raises:
  assumes "mkdtemp env = Inr temp_dir" and "chrome_start env = None" and "quit_raises env = Some e"
  shows "check_focus_visibility env u w =
           (Inl e, w\<lparr>temp_dirs := insert temp_dir (temp_dirs w), browser_running := True\<rparr>)"
  using assms
  by (simp add: check_focus_visibility_def setup_driver_def Let_def)

text \<open>
  C9. The release is not unconditional: \<^verbatim>\<open>setup_driver\<close> makes the temporary
  directory before it starts the browser, and when the browser does not start the
  handler in \<^verbatim>\<open>check_focus_visibility\<close> re-raises without removing it. The run
  ends with the exception and with the directory still there.
\<close>

theorem temp_dir_survives_failed_setup:
  assumes "mkdtemp env = Inr temp_dir" and "chrome_start env = Some e"
  shows "check_focus_visibility env u w =
           (Inl e, w\<lparr>temp_dirs := insert temp_dir (temp_dirs w)\<rparr>)
    \<and> temp_dir \<in> temp_dirs (snd (check_focus_visibility env u w))"
  using assms
  by (simp add: check_focus_visibility_def setup_driver_def)

theorem temp_dir_survives_failed_setup_witness:
  "check_focus_visibility example_env ''https://example.org''
      \<lparr> browser_running = False, temp_dirs = {} \<rparr>
     = (Inl WebDriverException, \<lparr> browser_running = False, temp_dirs = {''/tmp/tmpa1b2c3''} \<rparr>)"
proof -
  have m: "mkdtemp example_env = Inr ''/tmp/tmpa1b2c3''"
    and c: "chrome_start example_env = Some WebDriverException"
    by (simp_all add: example_env_def)
  from temp_dir_survives_failed_setup [OF m c, of "''https://example.org''"
      "\<lparr> browser_running = False, temp_dirs = {} \<rparr>"]
  show ?thesis by simp
qed

end
